theory Spec2Isabelle
  imports Main
begin


section \<open>Strings of the client\<close>

text \<open>
  Strings are lists of ASCII characters. The helpers below are the string methods of the
  language runtime that the chat client calls: \<^verbatim>\<open>startsWith\<close>, \<^verbatim>\<open>endsWith\<close>,
  \<^verbatim>\<open>substring(n)\<close> and \<^verbatim>\<open>split('\n')\<close>, and the decimal rendering of a number
  inside a template literal.
\<close>

definition startsWith :: "string \<Rightarrow> string \<Rightarrow> bool" where
  "startsWith s p = (take (length p) s = p)"

definition endsWith :: "string \<Rightarrow> string \<Rightarrow> bool" where
  "endsWith s p = (length p \<le> length s \<and> drop (length s - length p) s = p)"

definition substring :: "string \<Rightarrow> nat \<Rightarrow> string" where
  "substring s n = drop n s"

definition newline :: char where
  "newline = CHR 0x0A"

text \<open>
  \<^verbatim>\<open>chunk.split('\n')\<close>: the pieces between the newline characters. The result is
  never empty: a string with no newline is its own single piece, and a trailing newline
  leaves a last empty piece.
\<close>

fun split_newline :: "string \<Rightarrow> string list" where
  "split_newline [] = [[]]"
| "split_newline (c # cs) =
     (if c = newline then [] # split_newline cs
      else (case split_newline cs of
              [] \<Rightarrow> [[c]]
            | l # ls \<Rightarrow> (c # l) # ls))"

definition digit_char :: "nat \<Rightarrow> char" where
  "digit_char d = char_of (48 + d)"

text \<open>
  The decimal digits of a number, the last digit first put in front of those already
  written: \<^verbatim>\<open>`${n}`\<close> for a non-negative integer.
\<close>

function decimal_digits :: "nat \<Rightarrow> string \<Rightarrow> string" where
  "decimal_digits n acc =
     (let acc' = digit_char (n mod 10) # acc
      in if n div 10 = 0 then acc' else decimal_digits (n div 10) acc')"
  by pat_completeness auto
termination
  by (relation "measure fst") auto

declare decimal_digits.simps [simp del]

definition string_of_nat :: "nat \<Rightarrow> string" where
  "string_of_nat n = decimal_digits n []"

section \<open>Data model of the chat client (types/index.ts)\<close>

text \<open>
  A payload of unknown shape (\<^verbatim>\<open>Record<string, any>\<close>) is a JSON value. Numbers are
  integers: the identifiers and page numbers of the protocol.
\<close>

datatype json =
    JNull
  | JBool bool
  | JNumber int
  | JString string
  | JArray "json list"
  | JObject "(string \<times> json) list"

datatype role = user | assistant

datatype tool_status = in_progress | complete

record ToolCall =
  tc_name :: string
  tc_status :: tool_status

record GenerativeComponent =
  gc_name :: string
  gc_props :: json

text \<open>\<^verbatim>\<open>page: number | string\<close>\<close>

datatype page_value = PageNumber int | PageString string

record Source =
  src_id :: int
  pdf_id :: string
  filename :: string
  page :: page_value
  src_text :: string

text \<open>
  The optional fields of a message are \<open>None\<close> when the property is absent
  (\<^verbatim>\<open>undefined\<close>). The timestamp is the clock reading in milliseconds.
\<close>

record Message =
  msg_id :: string
  role :: role
  content :: string
  timestamp :: nat
  sources :: "Source list option"
  toolCalls :: "ToolCall list option"
  components :: "GenerativeComponent list option"
  msg_isStreaming :: "bool option"

section \<open>The streaming hook (lib/useStreamingChat.ts)\<close>

text \<open>
  The state of the hook: the three React state cells and the reference cell that holds
  the abort controller (\<open>True\<close> while a controller is stored in it).
\<close>

record chat_state =
  messages :: "Message list"
  isStreaming :: bool
  error :: "string option"
  abortControllerRef :: bool

text \<open>
  The frames of the wire protocol, as the handler reads them after \<^verbatim>\<open>JSON.parse\<close>:
  the branch is chosen by the \<^verbatim>\<open>type\<close> property, and a parsed object whose type is
  none of the six runs no branch.
\<close>

datatype sse_event =
    text_event string
  | tool_call_event string tool_status
  | component_event string json
  | sources_event "Source list"
  | done_event
  | error_event string
  | other_event

text \<open>\<^verbatim>\<open>toolCalls.findIndex(p)\<close>; \<open>None\<close> is the result -1.\<close>

fun findIndex :: "('a \<Rightarrow> bool) \<Rightarrow> 'a list \<Rightarrow> nat option" where
  "findIndex P [] = None"
| "findIndex P (x # xs) = (if P x then Some 0 else map_option Suc (findIndex P xs))"

text \<open>The body of the \<^verbatim>\<open>tool_call\<close> branch for the assistant message.\<close>

definition updateToolCalls :: "string \<Rightarrow> tool_status \<Rightarrow> Message \<Rightarrow> Message" where
  "updateToolCalls nm st msg =
     (let tcs = (case toolCalls msg of None \<Rightarrow> [] | Some l \<Rightarrow> l) in
      case findIndex (\<lambda>tc. tc_name tc = nm) tcs of
        Some existingIndex \<Rightarrow>
          msg\<lparr>toolCalls := Some (tcs[existingIndex := \<lparr>tc_name = nm, tc_status = st\<rparr>])\<rparr>
      | None \<Rightarrow>
          msg\<lparr>toolCalls := Some (tcs @ [\<lparr>tc_name = nm, tc_status = st\<rparr>])\<rparr>)"

definition addComponent :: "string \<Rightarrow> json \<Rightarrow> Message \<Rightarrow> Message" where
  "addComponent nm ps msg =
     (let cs = (case components msg of None \<Rightarrow> [] | Some l \<Rightarrow> l) in
      msg\<lparr>components := Some (cs @ [\<lparr>gc_name = nm, gc_props = ps\<rparr>])\<rparr>)"

text \<open>
  \<^verbatim>\<open>setMessages(prev => prev.map(msg => msg.id === assistantMessageId ? f(msg) : msg))\<close>
\<close>

definition mapAssistant :: "string \<Rightarrow> (Message \<Rightarrow> Message) \<Rightarrow> chat_state \<Rightarrow> chat_state" where
  "mapAssistant aid f st =
     st\<lparr>messages := map (\<lambda>msg. if msg_id msg = aid then f msg else msg) (messages st)\<rparr>"

text \<open>
  How a step of the reading loop leaves: it goes on with the next line, it returns from
  \<^verbatim>\<open>sendMessage\<close>, or an exception reaches the outer handler. The state is the state
  of the hook at that moment.
\<close>

record js_error =
  err_name :: string
  err_message :: string

datatype flow = Continue chat_state | Return chat_state | Throw js_error chat_state

fun state_of :: "flow \<Rightarrow> chat_state" where
  "state_of (Continue st) = st"
| "state_of (Return st) = st"
| "state_of (Throw e st) = st"

text \<open>The chain of branches on \<^verbatim>\<open>data.type\<close>.\<close>

fun handleData :: "string \<Rightarrow> sse_event \<Rightarrow> chat_state \<Rightarrow> flow" where
  "handleData aid (text_event c) st =
     Continue (mapAssistant aid (\<lambda>msg. msg\<lparr>content := content msg @ c\<rparr>) st)"
| "handleData aid (tool_call_event nm s) st =
     Continue (mapAssistant aid (updateToolCalls nm s) st)"
| "handleData aid (component_event nm ps) st =
     Continue (mapAssistant aid (addComponent nm ps) st)"
| "handleData aid (sources_event srcs) st =
     Continue (mapAssistant aid (\<lambda>msg. msg\<lparr>sources := Some srcs\<rparr>) st)"
| "handleData aid done_event st =
     Return ((mapAssistant aid (\<lambda>msg. msg\<lparr>msg_isStreaming := Some False\<rparr>) st)
               \<lparr>isStreaming := False, abortControllerRef := False\<rparr>)"
| "handleData aid (error_event c) st =
     Return (st\<lparr>error := Some c, isStreaming := False, abortControllerRef := False\<rparr>)"
| "handleData aid other_event st = Continue st"

text \<open>
  The loop over the lines of one chunk. \<open>parse\<close> is \<^verbatim>\<open>JSON.parse\<close> read at the types
  of the protocol; \<open>None\<close> is the exception that the inner handler catches and logs.
\<close>

fun processLines ::
  "(string \<Rightarrow> sse_event option) \<Rightarrow> string \<Rightarrow> chat_state \<Rightarrow> string list \<Rightarrow> flow" where
  "processLines parse aid st [] = Continue st"
| "processLines parse aid st (line # lines) =
     (if startsWith line ''data: '' then
        (case parse (substring line 6) of
           None \<Rightarrow> processLines parse aid st lines
         | Some data \<Rightarrow>
             (case handleData aid data st of
                Continue st' \<Rightarrow> processLines parse aid st' lines
              | r \<Rightarrow> r))
      else processLines parse aid st lines)"

text \<open>
  What \<^verbatim>\<open>reader.read()\<close> gives, one after the other: a decoded chunk, or an exception
  (a broken connection, an abort). The end of the list is \<^verbatim>\<open>done\<close>. The decoder runs
  in streaming mode, so a chunk is the text of its bytes.
\<close>

datatype read_result = Chunk string | ReadThrows js_error

fun readLoop ::
  "(string \<Rightarrow> sse_event option) \<Rightarrow> string \<Rightarrow> chat_state \<Rightarrow> read_result list \<Rightarrow> flow" where
  "readLoop parse aid st [] = Continue st"
| "readLoop parse aid st (ReadThrows e # rs) = Throw e st"
| "readLoop parse aid st (Chunk c # rs) =
     (case processLines parse aid st (split_newline c) of
        Continue st' \<Rightarrow> readLoop parse aid st' rs
      | r \<Rightarrow> r)"


text \<open>
  After the loop: the code that follows the \<^verbatim>\<open>while\<close>, and the outer handler.
  Every exception of the model is an \<^verbatim>\<open>Error\<close> object; only its name and message
  are read.
\<close>

definition Error_new :: "string \<Rightarrow> js_error" where
  "Error_new msg = \<lparr>err_name = ''Error'', err_message = msg\<rparr>"

definition catchHandler :: "js_error \<Rightarrow> chat_state \<Rightarrow> chat_state" where
  "catchHandler err st =
     (let st' = (if err_name err \<noteq> ''AbortError''
                 then st\<lparr>error := Some (if err_message err = [] then ''Failed to connect''
                                          else err_message err)\<rparr>
                 else st)
      in st'\<lparr>isStreaming := False, abortControllerRef := False\<rparr>)"

text \<open>The request and the answers of the network.\<close>

record request =
  req_method :: string
  req_url :: string
  req_headers :: "(string \<times> string) list"
  req_body :: json

datatype fetch_result =
    FetchThrows js_error
  | Response nat "read_result list option"

definition response_ok :: "nat \<Rightarrow> bool" where
  "response_ok status = (200 \<le> status \<and> status \<le> 299)"

text \<open>
  \<^verbatim>\<open>process.env.NEXT_PUBLIC_API_URL || 'http://localhost:8000'\<close> (lib/api.ts)
\<close>

definition API_BASE_URL :: "string option \<Rightarrow> string" where
  "API_BASE_URL env =
     (case env of
        None \<Rightarrow> ''http://localhost:8000''
      | Some u \<Rightarrow> if u = [] then ''http://localhost:8000'' else u)"

text \<open>The four readings of the clock that \<^verbatim>\<open>sendMessage\<close> makes, in order.\<close>

record clock =
  now_user :: nat
  date_user :: nat
  now_assistant :: nat
  date_assistant :: nat

definition chatRequest :: "string option \<Rightarrow> string \<Rightarrow> request" where
  "chatRequest env input =
     \<lparr>req_method = ''POST'',
      req_url = API_BASE_URL env @ ''/api/chat/stream'',
      req_headers = [(''Content-Type'', ''application/json'')],
      req_body = JObject [(''message'', JString input), (''use_context'', JBool True)]\<rparr>"

definition assistantMessageId :: "clock \<Rightarrow> string" where
  "assistantMessageId clk = ''msg_'' @ string_of_nat (now_assistant clk + 1)"

definition userMessage :: "clock \<Rightarrow> string \<Rightarrow> Message" where
  "userMessage clk c =
     \<lparr>msg_id = ''msg_'' @ string_of_nat (now_user clk), role = user, content = c,
      timestamp = date_user clk, sources = None, toolCalls = None, components = None,
      msg_isStreaming = None\<rparr>"

definition assistantMessage :: "clock \<Rightarrow> Message" where
  "assistantMessage clk =
     \<lparr>msg_id = assistantMessageId clk, role = assistant, content = [],
      timestamp = date_assistant clk, sources = Some [], toolCalls = None, components = None,
      msg_isStreaming = Some True\<rparr>"

text \<open>The state when the request is sent: both messages appended, the controller stored.\<close>

definition startState :: "clock \<Rightarrow> string \<Rightarrow> chat_state \<Rightarrow> chat_state" where
  "startState clk c st =
     st\<lparr>messages := messages st @ [userMessage clk c, assistantMessage clk],
        error := None, isStreaming := True, abortControllerRef := True\<rparr>"

text \<open>
  \<^verbatim>\<open>sendMessage\<close>: the final state of the hook and the requests issued, in order.
  \<open>net\<close> is the network: what \<^verbatim>\<open>fetch\<close> answers to a request.
\<close>

definition sendMessage ::
  "(string \<Rightarrow> sse_event option) \<Rightarrow> string option \<Rightarrow> (request \<Rightarrow> fetch_result) \<Rightarrow> clock \<Rightarrow>
   string \<Rightarrow> chat_state \<Rightarrow> chat_state \<times> request list" where
  "sendMessage parse env net clk c st0 =
     (let st = startState clk c st0;
          req = chatRequest env c;
          final =
            (case net req of
               FetchThrows e \<Rightarrow> catchHandler e st
             | Response status body \<Rightarrow>
                 if \<not> response_ok status
                 then catchHandler (Error_new (''HTTP error! status: '' @ string_of_nat status)) st
                 else (case body of
                         None \<Rightarrow> catchHandler (Error_new ''No response body'') st
                       | Some reads \<Rightarrow>
                           (case readLoop parse (assistantMessageId clk) st reads of
                              Continue st' \<Rightarrow> st'\<lparr>isStreaming := False, abortControllerRef := False\<rparr>
                            | Return st' \<Rightarrow> st'
                            | Throw e st' \<Rightarrow> catchHandler e st')))
      in (final, [req]))"

subsection \<open>The events that the reader decodes\<close>

text \<open>
  The events of a list of lines, of a chunk and of a whole sequence of reads: the frames
  that the loops hand to the branches on \<^verbatim>\<open>data.type\<close>, in order.
\<close>

definition lineEvent :: "(string \<Rightarrow> sse_event option) \<Rightarrow> string \<Rightarrow> sse_event option" where
  "lineEvent parse line =
     (if startsWith line ''data: '' then parse (substring line 6) else None)"

definition chunkEvents :: "(string \<Rightarrow> sse_event option) \<Rightarrow> string \<Rightarrow> sse_event list" where
  "chunkEvents parse c = List.map_filter (lineEvent parse) (split_newline c)"

fun readEvents :: "(string \<Rightarrow> sse_event option) \<Rightarrow> read_result list \<Rightarrow> sse_event list" where
  "readEvents parse [] = []"
| "readEvents parse (ReadThrows e # rs) = []"
| "readEvents parse (Chunk c # rs) = chunkEvents parse c @ readEvents parse rs"

fun is_terminal :: "sse_event \<Rightarrow> bool" where
  "is_terminal done_event = True"
| "is_terminal (error_event c) = True"
| "is_terminal ev = False"

fun text_of :: "sse_event \<Rightarrow> string" where
  "text_of (text_event c) = c"
| "text_of ev = []"

fun is_text :: "sse_event \<Rightarrow> bool" where
  "is_text (text_event c) = True"
| "is_text ev = False"

text \<open>The events before the first terminal one, and the text they carry.\<close>

definition beforeTerminal :: "sse_event list \<Rightarrow> sse_event list" where
  "beforeTerminal evs = takeWhile (\<lambda>ev. \<not> is_terminal ev) evs"

definition streamedText :: "sse_event list \<Rightarrow> string" where
  "streamedText evs = concat (map text_of (beforeTerminal evs))"

text \<open>The loop over events alone: the branches, applied until one returns.\<close>

fun processEvents :: "string \<Rightarrow> chat_state \<Rightarrow> sse_event list \<Rightarrow> flow" where
  "processEvents aid st [] = Continue st"
| "processEvents aid st (ev # evs) =
     (case handleData aid ev st of
        Continue st' \<Rightarrow> processEvents aid st' evs
      | r \<Rightarrow> r)"


section \<open>Reading a frame: the JSON text of a line\<close>

text \<open>
  \<^verbatim>\<open>JSON.parse\<close> belongs to the language runtime. The reader below covers the JSON
  grammar with two limits, where it gives \<open>None\<close>: a number with a fraction or an
  exponent, and the escape \<^verbatim>\<open>\u\<close> in a string. \<open>None\<close> is the exception that
  \<^verbatim>\<open>JSON.parse\<close> throws on a text that is not JSON. The depth of the recursion is
  bounded by the fuel, which \<open>JSON_parse\<close> takes from the length of the text.
\<close>

definition is_ws :: "char \<Rightarrow> bool" where
  "is_ws c = (c = CHR '' '' \<or> c = CHR 0x09 \<or> c = CHR 0x0A \<or> c = CHR 0x0D)"

definition is_digit :: "char \<Rightarrow> bool" where
  "is_digit c = (48 \<le> (of_char c :: nat) \<and> (of_char c :: nat) \<le> 57)"

definition digit_value :: "char \<Rightarrow> nat" where
  "digit_value c = of_char c - 48"

definition decimal_value :: "string \<Rightarrow> nat" where
  "decimal_value ds = foldl (\<lambda>a c. 10 * a + digit_value c) 0 ds"

definition unescape :: "char \<Rightarrow> char option" where
  "unescape e =
     (if e = CHR 0x22 then Some (CHR 0x22)
      else if e = CHR 0x5C then Some (CHR 0x5C)
      else if e = CHR ''/'' then Some (CHR ''/'')
      else if e = CHR ''b'' then Some (CHR 0x08)
      else if e = CHR ''f'' then Some (CHR 0x0C)
      else if e = CHR ''n'' then Some (CHR 0x0A)
      else if e = CHR ''r'' then Some (CHR 0x0D)
      else if e = CHR ''t'' then Some (CHR 0x09)
      else None)"

text \<open>The characters of a string after its opening quote, and the text after the closing one.\<close>

fun parse_string_chars :: "string \<Rightarrow> (string \<times> string) option" where
  "parse_string_chars [] = None"
| "parse_string_chars (c # cs) =
     (if c = CHR 0x22 then Some ([], cs)
      else if c = CHR 0x5C then
        (case cs of
           [] \<Rightarrow> None
         | e # r \<Rightarrow>
             (case unescape e of
                None \<Rightarrow> None
              | Some d \<Rightarrow>
                  (case parse_string_chars r of
                     None \<Rightarrow> None
                   | Some (s, r') \<Rightarrow> Some (d # s, r'))))
      else if (of_char c :: nat) < 32 then None
      else (case parse_string_chars cs of
              None \<Rightarrow> None
            | Some (s, r') \<Rightarrow> Some (c # s, r')))"

definition parse_number :: "string \<Rightarrow> (json \<times> string) option" where
  "parse_number s =
     (let neg = (s \<noteq> [] \<and> hd s = CHR ''-'');
          s1 = (if neg then tl s else s);
          ds = takeWhile is_digit s1;
          r = dropWhile is_digit s1
      in if ds = [] \<or> (1 < length ds \<and> hd ds = CHR ''0'') then None
         else if r \<noteq> [] \<and> (hd r = CHR ''.'' \<or> hd r = CHR ''e'' \<or> hd r = CHR ''E'') then None
         else Some (JNumber (if neg then - int (decimal_value ds) else int (decimal_value ds)), r))"

fun parse_value :: "nat \<Rightarrow> string \<Rightarrow> (json \<times> string) option"
  and parse_elements :: "nat \<Rightarrow> string \<Rightarrow> (json list \<times> string) option"
  and parse_members :: "nat \<Rightarrow> string \<Rightarrow> ((string \<times> json) list \<times> string) option" where
  "parse_value 0 s = None"
| "parse_value (Suc n) s =
     (case dropWhile is_ws s of
        [] \<Rightarrow> None
      | c # r \<Rightarrow>
          if c = CHR ''{'' then
            (case dropWhile is_ws r of
               [] \<Rightarrow> None
             | c' # r' \<Rightarrow>
                 if c' = CHR ''}'' then Some (JObject [], r')
                 else (case parse_members n (c' # r') of
                         None \<Rightarrow> None
                       | Some (kvs, r'') \<Rightarrow> Some (JObject kvs, r'')))
          else if c = CHR ''['' then
            (case dropWhile is_ws r of
               [] \<Rightarrow> None
             | c' # r' \<Rightarrow>
                 if c' = CHR '']'' then Some (JArray [], r')
                 else (case parse_elements n (c' # r') of
                         None \<Rightarrow> None
                       | Some (vs, r'') \<Rightarrow> Some (JArray vs, r'')))
          else if c = CHR 0x22 then
            (case parse_string_chars r of
               None \<Rightarrow> None
             | Some (str, r') \<Rightarrow> Some (JString str, r'))
          else if startsWith (c # r) ''true'' then Some (JBool True, drop 4 (c # r))
          else if startsWith (c # r) ''false'' then Some (JBool False, drop 5 (c # r))
          else if startsWith (c # r) ''null'' then Some (JNull, drop 4 (c # r))
          else parse_number (c # r))"
| "parse_elements 0 s = None"
| "parse_elements (Suc n) s =
     (case parse_value n s of
        None \<Rightarrow> None
      | Some (v, r) \<Rightarrow>
          (case dropWhile is_ws r of
             [] \<Rightarrow> None
           | c # r' \<Rightarrow>
               if c = CHR '','' then
                 (case parse_elements n r' of
                    None \<Rightarrow> None
                  | Some (vs, r'') \<Rightarrow> Some (v # vs, r''))
               else if c = CHR '']'' then Some ([v], r')
               else None))"
| "parse_members 0 s = None"
| "parse_members (Suc n) s =
     (case dropWhile is_ws s of
        [] \<Rightarrow> None
      | q # r \<Rightarrow>
          if q \<noteq> CHR 0x22 then None
          else
            (case parse_string_chars r of
               None \<Rightarrow> None
             | Some (k, r1) \<Rightarrow>
                 (case dropWhile is_ws r1 of
                    [] \<Rightarrow> None
                  | c1 # r2 \<Rightarrow>
                      if c1 \<noteq> CHR '':'' then None
                      else
                        (case parse_value n r2 of
                           None \<Rightarrow> None
                         | Some (v, r3) \<Rightarrow>
                             (case dropWhile is_ws r3 of
                                [] \<Rightarrow> None
                              | c3 # r4 \<Rightarrow>
                                  if c3 = CHR '','' then
                                    (case parse_members n r4 of
                                       None \<Rightarrow> None
                                     | Some (kvs, r5) \<Rightarrow> Some ((k, v) # kvs, r5))
                                  else if c3 = CHR ''}'' then Some ([(k, v)], r4)
                                  else None)))))"

definition JSON_parse :: "string \<Rightarrow> json option" where
  "JSON_parse s =
     (case parse_value (2 * length s + 2) s of
        None \<Rightarrow> None
      | Some (v, r) \<Rightarrow> if dropWhile is_ws r = [] then Some v else None)"

text \<open>
  Reading a property of a parsed object: of two members with one key the later one
  stands. \<open>None\<close> is \<^verbatim>\<open>undefined\<close>.
\<close>

definition get_prop :: "(string \<times> json) list \<Rightarrow> string \<Rightarrow> json option" where
  "get_prop kvs k = map_of (rev kvs) k"

definition sourceOfJson :: "json \<Rightarrow> Source option" where
  "sourceOfJson j =
     (case j of
        JObject kvs \<Rightarrow>
          (case (get_prop kvs ''id'', get_prop kvs ''pdf_id'', get_prop kvs ''filename'',
                 get_prop kvs ''page'', get_prop kvs ''text'') of
             (Some (JNumber i), Some (JString p), Some (JString f), Some (JNumber n),
              Some (JString t)) \<Rightarrow>
               Some \<lparr>src_id = i, pdf_id = p, filename = f, page = PageNumber n, src_text = t\<rparr>
           | (Some (JNumber i), Some (JString p), Some (JString f), Some (JString n),
              Some (JString t)) \<Rightarrow>
               Some \<lparr>src_id = i, pdf_id = p, filename = f, page = PageString n, src_text = t\<rparr>
           | _ \<Rightarrow> None)
      | _ \<Rightarrow> None)"

fun sourcesOfJson :: "json list \<Rightarrow> Source list option" where
  "sourcesOfJson [] = Some []"
| "sourcesOfJson (j # js) =
     (case sourceOfJson j of
        None \<Rightarrow> None
      | Some s \<Rightarrow> (case sourcesOfJson js of None \<Rightarrow> None | Some ss \<Rightarrow> Some (s # ss)))"

text \<open>
  The frame of a parsed object, read at the types of the protocol: the branch that
  \<^verbatim>\<open>data.type\<close> selects and the properties that the branch reads. An object that
  selects a branch but whose properties do not have the types of the protocol is outside
  the model, and no event is read from it.
\<close>

definition eventOfObject :: "(string \<times> json) list \<Rightarrow> sse_event option" where
  "eventOfObject kvs =
     (case get_prop kvs ''type'' of
        Some (JString t) \<Rightarrow>
          if t = ''text'' then
            (case get_prop kvs ''content'' of
               Some (JString c) \<Rightarrow> Some (text_event c)
             | _ \<Rightarrow> None)
          else if t = ''tool_call'' then
            (case (get_prop kvs ''name'', get_prop kvs ''status'') of
               (Some (JString nm), Some (JString s)) \<Rightarrow>
                 if s = ''in_progress'' then Some (tool_call_event nm in_progress)
                 else if s = ''complete'' then Some (tool_call_event nm complete)
                 else None
             | _ \<Rightarrow> None)
          else if t = ''component'' then
            (case (get_prop kvs ''name'', get_prop kvs ''props'') of
               (Some (JString nm), Some ps) \<Rightarrow> Some (component_event nm ps)
             | _ \<Rightarrow> None)
          else if t = ''sources'' then
            (case get_prop kvs ''content'' of
               Some (JArray js) \<Rightarrow> map_option sources_event (sourcesOfJson js)
             | _ \<Rightarrow> None)
          else if t = ''done'' then Some done_event
          else if t = ''error'' then
            (case get_prop kvs ''content'' of
               Some (JString c) \<Rightarrow> Some (error_event c)
             | _ \<Rightarrow> None)
          else Some other_event
      | _ \<Rightarrow> Some other_event)"

text \<open>
  \<^verbatim>\<open>JSON.parse(jsonData)\<close> followed by the read of \<^verbatim>\<open>data.type\<close>: on \<^verbatim>\<open>null\<close> the
  read throws, and on any other value that is not an object no branch runs.
\<close>

definition parseFrame :: "string \<Rightarrow> sse_event option" where
  "parseFrame s =
     (case JSON_parse s of
        None \<Rightarrow> None
      | Some JNull \<Rightarrow> None
      | Some (JObject kvs) \<Rightarrow> eventOfObject kvs
      | Some v \<Rightarrow> Some other_event)"

subsection \<open>Notions used to state the properties of the hook\<close>

text \<open>The state after the handlers of a list of events have run, one after the other.\<close>

definition applyAll :: "string \<Rightarrow> chat_state \<Rightarrow> sse_event list \<Rightarrow> chat_state" where
  "applyAll aid st evs = foldl (\<lambda>s ev. state_of (handleData aid ev s)) st evs"

text \<open>What the branch of an event does to a message that carries the assistant identifier.\<close>

fun eventUpdate :: "sse_event \<Rightarrow> Message \<Rightarrow> Message" where
  "eventUpdate (text_event c) msg = msg\<lparr>content := content msg @ c\<rparr>"
| "eventUpdate (tool_call_event nm s) msg = updateToolCalls nm s msg"
| "eventUpdate (component_event nm ps) msg = addComponent nm ps msg"
| "eventUpdate (sources_event srcs) msg = msg\<lparr>sources := Some srcs\<rparr>"
| "eventUpdate done_event msg = msg\<lparr>msg_isStreaming := Some False\<rparr>"
| "eventUpdate (error_event c) msg = msg"
| "eventUpdate other_event msg = msg"



text \<open>The state of the hook when it is mounted, and the inputs of the worked examples.\<close>

definition initialState :: chat_state where
  "initialState = \<lparr>messages = [], isStreaming = False, error = None, abortControllerRef = False\<rparr>"

definition sampleClock :: clock where
  "sampleClock = \<lparr>now_user = 1000, date_user = 1000, now_assistant = 1000, date_assistant = 1001\<rparr>"

definition sampleNet :: "read_result list \<Rightarrow> request \<Rightarrow> fetch_result" where
  "sampleNet reads req = Response 200 (Some reads)"

definition helloReads :: "read_result list" where
  \<open>helloReads =
     [Chunk ''data: {"type":"text","content":"Hel"}\<newline>data: {"type":"text","content":"lo"}\<newline>'',
      Chunk ''data: {"type":"done"}\<newline>data: {"type":"text","content":"late"}\<newline>'']\<close>

definition failingReads :: "read_result list" where
  \<open>failingReads =
     [Chunk ''data: {"type":"text","content":"Hel"}\<newline>'',
      Chunk ''data: {"type":"error","content":"boom"}\<newline>data: {"type":"done"}\<newline>'']\<close>



text \<open>
  A partition of the text of a response into chunks is aligned with the lines when every
  chunk but the last is empty or ends with a newline.
\<close>

fun lineAligned :: "string list \<Rightarrow> bool" where
  "lineAligned [] = True"
| "lineAligned [c] = True"
| "lineAligned (c # cs) = ((c = [] \<or> last c = newline) \<and> lineAligned cs)"

text \<open>One frame in one chunk, and the same text cut inside the frame.\<close>

definition wholeFrame :: "string list" where
  \<open>wholeFrame = [''data: {"type":"text","content":"hi"}\<newline>'']\<close>

definition cutFrame :: "string list" where
  \<open>cutFrame = [''data: {"type":"te'', ''xt","content":"hi"}\<newline>'']\<close>

text \<open>Three frames in one chunk, and the same text cut after the first line.\<close>

definition wholeLines :: "string list" where
  \<open>wholeLines =
     [''data: {"type":"text","content":"Hel"}\<newline>data: {"type":"text","content":"lo"}\<newline>data: {"type":"done"}\<newline>'']\<close>

definition cutLines :: "string list" where
  \<open>cutLines =
     [''data: {"type":"text","content":"Hel"}\<newline>'',
      ''data: {"type":"text","content":"lo"}\<newline>data: {"type":"done"}\<newline>'']\<close>

section \<open>Numbers read from strings\<close>






section \<open>Citations in the text of a message (MessageBubble, CitationBadge.tsx)\<close>

text \<open>
  The regular expression \<^verbatim>\<open>\[(\d+)\]\<close> at the start of a string: the digits of the
  group and the text after the match. The run of digits is the longest one, since the
  character after it has to be the closing bracket.
\<close>

definition match_marker :: "string \<Rightarrow> (string \<times> string) option" where
  "match_marker s =
     (case s of
        [] \<Rightarrow> None
      | c # r \<Rightarrow>
          if c = CHR ''['' then
            (let ds = takeWhile is_digit r; r' = dropWhile is_digit r
             in if ds \<noteq> [] \<and> r' \<noteq> [] \<and> hd r' = CHR '']'' then Some (ds, tl r') else None)
          else None)"

definition marker :: "string \<Rightarrow> string" where
  "marker ds = ''['' @ ds @ '']''"



text \<open>
  \<^verbatim>\<open>content.split(/(\[\d+\])/g)\<close>: the texts between the matches, with every match
  between its two neighbours. The matches are found from left to right, each search
  starting after the previous match.
\<close>

function split_citations :: "string \<Rightarrow> string list" where
  "split_citations [] = [[]]"
| "split_citations (c # cs) =
     (case match_marker (c # cs) of
        Some (ds, rest) \<Rightarrow> [] # marker ds # split_citations rest
      | None \<Rightarrow>
          (case split_citations cs of
             [] \<Rightarrow> [[c]]
           | t # ts \<Rightarrow> (c # t) # ts))"
  by pat_completeness auto
termination
proof (relation "measure length")
  show "wf (measure length)" by simp
next
  fix c :: char and cs :: string and x2 :: "string \<times> string" and ds rest :: string
  assume m: "match_marker (c # cs) = Some x2" and x: "(ds, rest) = x2"
  have "rest = tl (dropWhile is_digit cs)"
    using m x by (auto simp: match_marker_def Let_def split: if_splits)
  moreover have "length (dropWhile is_digit cs) \<le> length cs"
    by (rule length_dropWhile_le)
  ultimately have "length rest \<le> length cs" by simp
  then show "(rest, c # cs) \<in> measure length" by simp
next
  fix c :: char and cs :: string
  show "(cs, c # cs) \<in> measure length" by simp
qed













section \<open>Opening the viewer from a citation (ChatInterface)\<close>




section \<open>Dispatch of generative components (generative/ComponentRenderer)\<close>

datatype component = Chart | DataTable | InfoCard

definition componentRegistry :: "(string \<times> component) list" where
  "componentRegistry = [(''chart'', Chart), (''table'', DataTable), (''card'', InfoCard)]"

text \<open>
  The registry is an object literal, so \<^verbatim>\<open>componentRegistry[name]\<close> reads an own
  property when there is one and a property of \<^verbatim>\<open>Object.prototype\<close> otherwise. The
  names below are the properties of \<^verbatim>\<open>Object.prototype\<close>; the value of each is a
  function or an object, which the test \<^verbatim>\<open>!Component\<close> lets through.
\<close>

definition Object_prototype_keys :: "string list" where
  "Object_prototype_keys =
     [''constructor'', ''__defineGetter__'', ''__defineSetter__'', ''hasOwnProperty'',
      ''__lookupGetter__'', ''__lookupSetter__'', ''isPrototypeOf'', ''propertyIsEnumerable'',
      ''toString'', ''valueOf'', ''__proto__'', ''toLocaleString'']"

datatype looked_up = Registered component | Inherited string | Undefined

definition registryLookup :: "string \<Rightarrow> looked_up" where
  "registryLookup nm =
     (case map_of componentRegistry nm of
        Some c \<Rightarrow> Registered c
      | None \<Rightarrow> if nm \<in> set Object_prototype_keys then Inherited nm else Undefined)"

datatype rendered = ErrorPlaceholder string | Element looked_up json

definition ComponentRenderer :: "string \<Rightarrow> json \<Rightarrow> rendered" where
  "ComponentRenderer nm props =
     (case registryLookup nm of
        Undefined \<Rightarrow> ErrorPlaceholder nm
      | Registered c \<Rightarrow> Element (Registered c) props
      | Inherited k \<Rightarrow> Element (Inherited k) props)"

section \<open>Uploading a document (DocumentUpload.tsx)\<close>

record File =
  file_name :: string
  file_size :: nat

datatype upload_status = status_uploading | status_processing | status_complete | status_error

record UploadProgress =
  up_file :: File
  up_progress :: nat
  up_status :: upload_status
  up_error :: "string option"

text \<open>
  The state cell of the component and what the handler does to the outside: the alerts
  shown, the calls of \<^verbatim>\<open>uploadDocument\<close> and the delays of the timers it starts.
\<close>

record upload_state =
  uploadProgress :: "UploadProgress option"
  alerts :: "string list"
  uploadCalls :: "File list"
  timers :: "nat list"

text \<open>What \<^verbatim>\<open>uploadDocument\<close> does: it resolves, or throws an error or another value.\<close>

datatype upload_result = Uploaded | UploadThrows js_error | UploadThrowsOther

definition lower_char :: "char \<Rightarrow> char" where
  "lower_char c =
     (if 65 \<le> (of_char c :: nat) \<and> (of_char c :: nat) \<le> 90 then char_of ((of_char c :: nat) + 32)
      else c)"

definition toLowerCase :: "string \<Rightarrow> string" where
  "toLowerCase s = map lower_char s"

definition handleFileUpload :: "(File \<Rightarrow> upload_result) \<Rightarrow> File \<Rightarrow> upload_state \<Rightarrow> upload_state" where
  "handleFileUpload uploadDocument file st =
     (if \<not> endsWith (toLowerCase (file_name file)) ''.pdf''
      then st\<lparr>alerts := alerts st @ [''Only PDF files are allowed'']\<rparr>
      else if 10 * 1024 * 1024 < file_size file
      then st\<lparr>alerts := alerts st @ [''File size must be less than 10MB'']\<rparr>
      else
        (let st1 = st\<lparr>uploadProgress :=
                        Some \<lparr>up_file = file, up_progress = 0, up_status = status_uploading,
                              up_error = None\<rparr>\<rparr>;
             st2 = st1\<lparr>uploadProgress :=
                         map_option (\<lambda>p. p\<lparr>up_progress := 30\<rparr>) (uploadProgress st1)\<rparr>;
             st3 = st2\<lparr>uploadCalls := uploadCalls st2 @ [file]\<rparr>
         in case uploadDocument file of
              Uploaded \<Rightarrow>
                st3\<lparr>uploadProgress :=
                       map_option (\<lambda>p. p\<lparr>up_progress := 100, up_status := status_complete\<rparr>)
                         (uploadProgress st3),
                    timers := timers st3 @ [1500]\<rparr>
            | UploadThrows e \<Rightarrow>
                st3\<lparr>uploadProgress :=
                       map_option (\<lambda>p. p\<lparr>up_status := status_error, up_error := Some (err_message e)\<rparr>)
                         (uploadProgress st3),
                    timers := timers st3 @ [3000]\<rparr>
            | UploadThrowsOther \<Rightarrow>
                st3\<lparr>uploadProgress :=
                       map_option (\<lambda>p. p\<lparr>up_status := status_error, up_error := Some ''Upload failed''\<rparr>)
                         (uploadProgress st3),
                    timers := timers st3 @ [3000]\<rparr>))"

section \<open>Inputs of the worked examples\<close>


definition emptyUploads :: upload_state where
  "emptyUploads = \<lparr>uploadProgress = None, alerts = [], uploadCalls = [], timers = []\<rparr>"

section \<open>Properties of the streaming hook\<close>

subsection \<open>The loops and the events they decode\<close>

lemma handleData_terminal:
  "is_terminal ev \<Longrightarrow> \<exists>st1. handleData aid ev st = Return st1"
  by (cases ev) simp_all

lemma handleData_nonterminal:
  "\<not> is_terminal ev \<Longrightarrow> \<exists>st1. handleData aid ev st = Continue st1"
  by (cases ev) simp_all

lemma processLines_events:
  "processLines parse aid st ls = processEvents aid st (List.map_filter (lineEvent parse) ls)"
proof (induction ls arbitrary: st)
  case Nil
  show ?case by (simp add: List.map_filter_simps)
next
  case (Cons l ls)
  show ?case
  proof (cases "lineEvent parse l")
    case None
    then show ?thesis
      using Cons.IH by (auto simp: List.map_filter_simps lineEvent_def split: if_splits)
  next
    case (Some ev)
    then have p: "startsWith l ''data: ''" "parse (substring l 6) = Some ev"
      by (auto simp: lineEvent_def split: if_splits)
    show ?thesis
      using Some p Cons.IH by (simp add: List.map_filter_simps split: flow.splits)
  qed
qed

lemma processEvents_append:
  "processEvents aid st (xs @ ys) =
     (case processEvents aid st xs of Continue st' \<Rightarrow> processEvents aid st' ys | r \<Rightarrow> r)"
  by (induction xs arbitrary: st) (auto split: flow.splits)

lemma processEvents_no_Throw: "processEvents aid st evs \<noteq> Throw e st'"
proof (induction evs arbitrary: st)
  case Nil show ?case by simp
next
  case (Cons ev evs)
  show ?case
  proof (cases "is_terminal ev")
    case True
    then obtain st1 where "handleData aid ev st = Return st1"
      using handleData_terminal by blast
    then show ?thesis by simp
  next
    case False
    then obtain st1 where "handleData aid ev st = Continue st1"
      using handleData_nonterminal by blast
    then show ?thesis using Cons.IH by simp
  qed
qed

lemma readLoop_chunks:
  "readLoop parse aid st (map Chunk cs) = processEvents aid st (concat (map (chunkEvents parse) cs))"
proof (induction cs arbitrary: st)
  case Nil show ?case by simp
next
  case (Cons c cs)
  show ?case
    using Cons.IH
    by (simp add: processLines_events chunkEvents_def processEvents_append split: flow.splits)
qed

lemma readLoop_state:
  "state_of (readLoop parse aid st rs) = state_of (processEvents aid st (readEvents parse rs))"
proof (induction rs arbitrary: st)
  case Nil show ?case by simp
next
  case (Cons r rs)
  show ?case
  proof (cases r)
    case (ReadThrows e)
    then show ?thesis by simp
  next
    case (Chunk c)
    show ?thesis
    proof (cases "processEvents aid st (chunkEvents parse c)")
      case (Continue st')
      then show ?thesis using Chunk Cons.IH[of st']
        by (simp add: processLines_events chunkEvents_def processEvents_append)
    next
      case (Return st')
      then show ?thesis using Chunk
        by (simp add: processLines_events chunkEvents_def processEvents_append)
    next
      case (Throw e st')
      then show ?thesis using processEvents_no_Throw by blast
    qed
  qed
qed

lemma processEvents_prefix:
  assumes "list_all (\<lambda>x. \<not> is_terminal x) pre"
  shows "processEvents aid st pre = Continue (applyAll aid st pre)"
  using assms
proof (induction pre arbitrary: st)
  case Nil show ?case by (simp add: applyAll_def)
next
  case (Cons ev pre)
  then have nt: "\<not> is_terminal ev" and rest: "list_all (\<lambda>x. \<not> is_terminal x) pre" by simp_all
  obtain st1 where h: "handleData aid ev st = Continue st1"
    using handleData_nonterminal[OF nt] by blast
  show ?case
    using h Cons.IH[OF rest, of st1] by (simp add: applyAll_def)
qed

lemma processEvents_terminal:
  assumes "list_all (\<lambda>x. \<not> is_terminal x) pre" "is_terminal ev"
  shows "processEvents aid st (pre @ ev # post) = Return (state_of (handleData aid ev (applyAll aid st pre)))"
proof -
  obtain st1 where h: "handleData aid ev (applyAll aid st pre) = Return st1"
    using handleData_terminal[OF assms(2)] by blast
  show ?thesis
    using processEvents_prefix[OF assms(1), of aid st] h by (simp add: processEvents_append)
qed

lemma readLoop_Return:
  "processEvents aid st (readEvents parse rs) = Return st' \<Longrightarrow> readLoop parse aid st rs = Return st'"
proof (induction rs arbitrary: st)
  case Nil then show ?case by simp
next
  case (Cons r rs)
  show ?case
  proof (cases r)
    case (ReadThrows e)
    then show ?thesis using Cons.prems by simp
  next
    case (Chunk c)
    show ?thesis
    proof (cases "processEvents aid st (chunkEvents parse c)")
      case (Continue st1)
      then show ?thesis using Chunk Cons.IH[of st1] Cons.prems
        by (simp add: processLines_events chunkEvents_def processEvents_append)
    next
      case (Return st1)
      then show ?thesis using Chunk Cons.prems
        by (simp add: processLines_events chunkEvents_def processEvents_append)
    next
      case (Throw e st1)
      then show ?thesis using processEvents_no_Throw by blast
    qed
  qed
qed

lemma handleData_messages:
  "messages (state_of (handleData aid ev st)) =
     map (\<lambda>m. if msg_id m = aid then eventUpdate ev m else m) (messages st)"
  by (cases ev) (simp_all add: mapAssistant_def cong: if_cong)

lemma updateToolCalls_frame:
  "msg_id (updateToolCalls nm s m) = msg_id m"
  "content (updateToolCalls nm s m) = content m"
  "role (updateToolCalls nm s m) = role m"
  "sources (updateToolCalls nm s m) = sources m"
  "components (updateToolCalls nm s m) = components m"
  by (simp_all add: updateToolCalls_def Let_def split: option.splits)

lemma eventUpdate_id: "msg_id (eventUpdate ev m) = msg_id m"
  by (cases ev) (simp_all add: updateToolCalls_frame addComponent_def Let_def)

lemma eventUpdate_role: "role (eventUpdate ev m) = role m"
  by (cases ev) (simp_all add: updateToolCalls_frame addComponent_def Let_def)

lemma eventUpdate_content: "content (eventUpdate ev m) = content m @ text_of ev"
  by (cases ev) (simp_all add: updateToolCalls_frame addComponent_def Let_def)

lemma handleData_ids:
  "map msg_id (messages (state_of (handleData aid ev st))) = map msg_id (messages st)"
  by (simp add: handleData_messages eventUpdate_id cong: if_cong)

lemma handleData_content:
  "map content (messages (state_of (handleData aid ev st))) =
     map (\<lambda>m. if msg_id m = aid then content m @ text_of ev else content m) (messages st)"
  by (simp add: handleData_messages eventUpdate_content cong: if_cong)

lemma applyAll_snoc:
  "applyAll aid st (pre @ [ev]) = state_of (handleData aid ev (applyAll aid st pre))"
  by (simp add: applyAll_def)

lemma applyAll_ids:
  "map msg_id (messages (applyAll aid st pre)) = map msg_id (messages st)"
  by (induction pre rule: rev_induct) (simp_all add: applyAll_snoc handleData_ids, simp add: applyAll_def)

lemma streamedText_Cons:
  "streamedText (ev # evs) = (if is_terminal ev then [] else text_of ev @ streamedText evs)"
  by (simp add: streamedText_def beforeTerminal_def)

lemma terminal_no_text: "is_terminal ev \<Longrightarrow> text_of ev = []"
  by (cases ev) simp_all

lemma processEvents_content:
  "map content (messages (state_of (processEvents aid st evs))) =
     map (\<lambda>m. if msg_id m = aid then content m @ streamedText evs else content m) (messages st)"
proof (induction evs arbitrary: st)
  case Nil
  show ?case by (simp add: streamedText_def beforeTerminal_def)
next
  case (Cons ev evs)
  show ?case
  proof (cases "is_terminal ev")
    case True
    then obtain st1 where h: "handleData aid ev st = Return st1"
      using handleData_terminal by blast
    have "map content (messages st1) = map content (messages st)"
      using handleData_content[of aid ev st] h terminal_no_text[OF True] by simp
    then show ?thesis using h True by (simp add: streamedText_Cons)
  next
    case False
    then obtain st1 where h: "handleData aid ev st = Continue st1"
      using handleData_nonterminal by blast
    have m1: "messages st1 = map (\<lambda>m. if msg_id m = aid then eventUpdate ev m else m) (messages st)"
      using handleData_messages[of aid ev st] h by simp
    show ?thesis
      using h False Cons.IH[of st1]
      by (simp add: m1 streamedText_Cons o_def eventUpdate_id eventUpdate_content cong: if_cong)
  qed
qed

lemma processEvents_ids:
  "map msg_id (messages (state_of (processEvents aid st evs))) = map msg_id (messages st)"
proof (induction evs arbitrary: st)
  case Nil
  show ?case by simp
next
  case (Cons ev evs)
  show ?case
  proof (cases "handleData aid ev st")
    case (Continue st1)
    then show ?thesis using Cons.IH[of st1] handleData_ids[of aid ev st] by simp
  next
    case (Return st1)
    then show ?thesis using handleData_ids[of aid ev st] by simp
  next
    case (Throw e st1)
    then show ?thesis using handleData_ids[of aid ev st] by simp
  qed
qed

lemma sendMessage_stream_messages:
  assumes "net (chatRequest env input) = Response status (Some reads)" "response_ok status"
  shows "messages (fst (sendMessage parse env net clk input st0)) =
         messages (state_of (readLoop parse (assistantMessageId clk) (startState clk input st0) reads))"
proof (cases "readLoop parse (assistantMessageId clk) (startState clk input st0) reads")
  case (Continue s)
  then show ?thesis using assms by (simp add: sendMessage_def Let_def)
next
  case (Return s)
  then show ?thesis using assms by (simp add: sendMessage_def Let_def)
next
  case (Throw e s)
  then show ?thesis using assms by (simp add: sendMessage_def Let_def catchHandler_def)
qed

subsection \<open>The text of the assistant message\<close>

text \<open>
  Claim C1. When the response is a stream, the content of the assistant message (the last
  message, which carries the assistant identifier) after \<^verbatim>\<open>sendMessage\<close> is the
  concatenation, in arrival order, of the contents of the text events decoded before the
  first terminal event; and the branch of an event that is not a text event leaves the
  content of every message as it was.
\<close>

theorem text_events_concatenated:
  assumes "net (chatRequest env input) = Response status (Some reads)"
    and "response_ok status"
  shows "content (last (messages (fst (sendMessage parse env net clk input st0)))) =
           streamedText (readEvents parse reads)
         \<and> msg_id (last (messages (fst (sendMessage parse env net clk input st0)))) =
           assistantMessageId clk
         \<and> (\<forall>aid ev st. \<not> is_text ev \<longrightarrow>
              map content (messages (state_of (handleData aid ev st))) = map content (messages st))"
proof -
  let ?aid = "assistantMessageId clk"
  let ?st = "startState clk input st0"
  let ?fin = "state_of (processEvents ?aid ?st (readEvents parse reads))"
  have ms: "messages (fst (sendMessage parse env net clk input st0)) = messages ?fin"
    using sendMessage_stream_messages[where net = net and env = env and input = input, OF assms]
    by (simp add: readLoop_state)
  have ne: "messages ?st \<noteq> []" and la: "last (messages ?st) = assistantMessage clk"
    by (simp_all add: startState_def)
  have c: "map content (messages ?fin) =
      map (\<lambda>m. if msg_id m = ?aid then content m @ streamedText (readEvents parse reads) else content m)
        (messages ?st)"
    by (rule processEvents_content)
  have "length (map content (messages ?fin)) = length (messages ?st)"
    by (simp only: c length_map)
  then have len: "messages ?fin \<noteq> []"
    using ne by auto
  have "content (last (messages ?fin)) = last (map content (messages ?fin))"
    using len by (simp add: last_map)
  also have "\<dots> = (if msg_id (last (messages ?st)) = ?aid
                    then content (last (messages ?st)) @ streamedText (readEvents parse reads)
                    else content (last (messages ?st)))"
    using ne by (simp add: c last_map)
  also have "\<dots> = streamedText (readEvents parse reads)"
    by (simp add: la assistantMessage_def)
  finally have A: "content (last (messages ?fin)) = streamedText (readEvents parse reads)" .
  have i: "map msg_id (messages ?fin) = map msg_id (messages ?st)"
    by (rule processEvents_ids)
  have "msg_id (last (messages ?fin)) = last (map msg_id (messages ?fin))"
    using len by (simp add: last_map)
  also have "\<dots> = ?aid"
    using ne by (simp add: i last_map la assistantMessage_def)
  finally have B: "msg_id (last (messages ?fin)) = ?aid" .
  have C: "\<forall>aid ev st. \<not> is_text ev \<longrightarrow>
      map content (messages (state_of (handleData aid ev st))) = map content (messages st)"
  proof (intro allI impI)
    fix aid ev st assume "\<not> is_text ev"
    then have "text_of ev = []" by (cases ev) simp_all
    then show "map content (messages (state_of (handleData aid ev st))) = map content (messages st)"
      by (simp add: handleData_content cong: if_cong)
  qed
  show ?thesis unfolding ms by (intro conjI A B C)
qed

lemma helloReads_events:
  "readEvents parseFrame helloReads =
     [text_event ''Hel'', text_event ''lo'', done_event, text_event ''late'']"
  by code_simp

text \<open>
  The theorem at a response of two chunks: two text frames, then \<^verbatim>\<open>done\<close> and a late
  text frame.
\<close>

theorem text_events_concatenated_witness:
  "response_ok 200
   \<and> content (last (messages (fst
        (sendMessage parseFrame None (sampleNet helloReads) sampleClock ''hi'' initialState)))) = ''Hello''
   \<and> map content (messages (state_of (handleData ''msg_1'' done_event initialState))) =
       map content (messages initialState)"
proof -
  have h1: "sampleNet helloReads (chatRequest None ''hi'') = Response 200 (Some helloReads)"
    by (simp add: sampleNet_def)
  have h2: "response_ok 200" by (simp add: response_ok_def)
  have t: "streamedText (readEvents parseFrame helloReads) = ''Hello''"
    by (simp add: helloReads_events streamedText_def beforeTerminal_def)
  have n: "\<not> is_text done_event" by simp
  note r = text_events_concatenated[where net = "sampleNet helloReads" and env = None
        and input = "''hi''" and parse = parseFrame and clk = sampleClock and ?st0.0 = initialState,
        OF h1 h2]
  have a: "content (last (messages (fst
        (sendMessage parseFrame None (sampleNet helloReads) sampleClock ''hi'' initialState)))) = ''Hello''"
    using conjunct1[OF r] t by simp
  have b: "map content (messages (state_of (handleData ''msg_1'' done_event initialState))) =
       map content (messages initialState)"
    using conjunct2[OF conjunct2[OF r]] n by blast
  show ?thesis using h2 a b by (intro conjI)
qed

subsection \<open>The terminal event\<close>



lemma applyAll_content:
  assumes "list_all (\<lambda>x. \<not> is_terminal x) pre"
  shows "map content (messages (applyAll aid st pre)) =
     map (\<lambda>m. if msg_id m = aid then content m @ concat (map text_of pre) else content m) (messages st)"
proof -
  have "processEvents aid st pre = Continue (applyAll aid st pre)"
    by (rule processEvents_prefix[OF assms])
  moreover have "streamedText pre = concat (map text_of pre)"
  proof -
    have h: "takeWhile (\<lambda>x. \<not> is_terminal x) pre = pre"
      using assms by (simp add: takeWhile_eq_all_conv list_all_iff)
    show ?thesis by (simp only: streamedText_def beforeTerminal_def h)
  qed
  ultimately show ?thesis
    using processEvents_content[of aid st pre] by simp
qed

lemma sendMessage_terminal:
  assumes "net (chatRequest env input) = Response status (Some reads)"
    and "response_ok status"
    and "readEvents parse reads = pre @ ev # post"
    and "list_all (\<lambda>x. \<not> is_terminal x) pre"
    and "is_terminal ev"
  shows "fst (sendMessage parse env net clk input st0) =
         state_of (handleData (assistantMessageId clk) ev
           (applyAll (assistantMessageId clk) (startState clk input st0) pre))"
proof -
  let ?aid = "assistantMessageId clk"
  let ?st = "startState clk input st0"
  have "processEvents ?aid ?st (readEvents parse reads) =
        Return (state_of (handleData ?aid ev (applyAll ?aid ?st pre)))"
    unfolding assms(3) by (rule processEvents_terminal[OF assms(4,5)])
  then have "readLoop parse ?aid ?st reads = Return (state_of (handleData ?aid ev (applyAll ?aid ?st pre)))"
    by (rule readLoop_Return)
  then show ?thesis
    using assms(1,2) by (simp add: sendMessage_def Let_def)
qed

lemma startState_last:
  "messages (startState clk input st0) \<noteq> []"
  "last (messages (startState clk input st0)) = assistantMessage clk"
  by (simp_all add: startState_def)

lemma applyAll_last_id:
  "messages (applyAll (assistantMessageId clk) (startState clk input st0) pre) \<noteq> [] \<and>
   msg_id (last (messages (applyAll (assistantMessageId clk) (startState clk input st0) pre))) =
     assistantMessageId clk"
proof -
  let ?S = "applyAll (assistantMessageId clk) (startState clk input st0) pre"
  have i: "map msg_id (messages ?S) = map msg_id (messages (startState clk input st0))"
    by (rule applyAll_ids)
  have "length (map msg_id (messages ?S)) = length (messages (startState clk input st0))"
    by (simp only: i length_map)
  then have ne: "messages ?S \<noteq> []" using startState_last(1)[of clk input st0] by auto
  have "msg_id (last (messages ?S)) = last (map msg_id (messages ?S))"
    using ne by (simp add: last_map)
  also have "\<dots> = assistantMessageId clk"
    using startState_last[of clk input st0] by (simp add: i last_map assistantMessage_def)
  finally show ?thesis using ne by simp
qed



text \<open>
  A response that ends with no terminal event takes neither outcome: the events are
  applied and the code after the loop clears the streaming flag of the hook.
\<close>

lemma readEvents_chunks: "readEvents parse (map Chunk cs) = concat (map (chunkEvents parse) cs)"
  by (induction cs) simp_all

lemma no_terminal_falls_through:
  assumes "net (chatRequest env input) = Response status (Some (map Chunk cs))"
    and "response_ok status"
    and "list_all (\<lambda>x. \<not> is_terminal x) (readEvents parse (map Chunk cs))"
  shows "fst (sendMessage parse env net clk input st0) =
         (applyAll (assistantMessageId clk) (startState clk input st0) (readEvents parse (map Chunk cs)))
           \<lparr>isStreaming := False, abortControllerRef := False\<rparr>"
proof -
  have "readLoop parse (assistantMessageId clk) (startState clk input st0) (map Chunk cs) =
        Continue (applyAll (assistantMessageId clk) (startState clk input st0)
                    (readEvents parse (map Chunk cs)))"
    using processEvents_prefix[OF assms(3)] by (simp add: readLoop_chunks readEvents_chunks)
  then show ?thesis using assms(1,2) by (simp add: sendMessage_def Let_def)
qed

text \<open>
  Claim C4. When the first terminal event is an \<^verbatim>\<open>error\<close> event, the final state is
  the state after the events before it with the error message set to the content of the
  event and the streaming flag of the hook cleared (the controller is released as well).
  The messages, with their content, sources, tool calls and components, are those built
  before the event, and the content of the assistant message is the text streamed so far.
\<close>

theorem error_preserves_streamed:
  assumes "net (chatRequest env input) = Response status (Some reads)"
    and "response_ok status"
    and "readEvents parse reads = pre @ error_event msg # post"
    and "list_all (\<lambda>x. \<not> is_terminal x) pre"
  shows "fst (sendMessage parse env net clk input st0) =
           (applyAll (assistantMessageId clk) (startState clk input st0) pre)
             \<lparr>error := Some msg, isStreaming := False, abortControllerRef := False\<rparr>
         \<and> messages (fst (sendMessage parse env net clk input st0)) =
             messages (applyAll (assistantMessageId clk) (startState clk input st0) pre)
         \<and> content (last (messages (fst (sendMessage parse env net clk input st0)))) =
             concat (map text_of pre)"
proof -
  let ?aid = "assistantMessageId clk"
  let ?S = "applyAll ?aid (startState clk input st0) pre"
  have t: "is_terminal (error_event msg)" by simp
  have eq: "fst (sendMessage parse env net clk input st0) =
      state_of (handleData ?aid (error_event msg) ?S)"
    by (rule sendMessage_terminal[where net = net and env = env and input = input,
          OF assms(1,2,3,4) t])
  have c: "map content (messages ?S) =
      map (\<lambda>m. if msg_id m = ?aid then content m @ concat (map text_of pre) else content m)
        (messages (startState clk input st0))"
    by (rule applyAll_content[OF assms(4)])
  have ne: "messages ?S \<noteq> []" using applyAll_last_id[of clk input st0 pre] by simp
  have "content (last (messages ?S)) = last (map content (messages ?S))"
    using ne by (simp add: last_map)
  also have "\<dots> = concat (map text_of pre)"
    using startState_last[of clk input st0]
    by (simp add: c last_map assistantMessage_def)
  finally show ?thesis using eq by simp
qed

lemma failingReads_events:
  "readEvents parseFrame failingReads = [text_event ''Hel'', error_event ''boom'', done_event]"
  by code_simp

text \<open>The theorem at a response whose second chunk carries an \<^verbatim>\<open>error\<close> frame.\<close>

theorem error_preserves_streamed_witness:
  "response_ok 200
   \<and> list_all (\<lambda>x. \<not> is_terminal x) [text_event ''Hel'']
   \<and> content (last (messages (fst
        (sendMessage parseFrame None (sampleNet failingReads) sampleClock ''hi'' initialState)))) = ''Hel''
   \<and> error (fst (sendMessage parseFrame None (sampleNet failingReads) sampleClock ''hi'' initialState)) =
       Some ''boom''"
proof -
  have h1: "sampleNet failingReads (chatRequest None ''hi'') = Response 200 (Some failingReads)"
    by (simp add: sampleNet_def)
  have h2: "response_ok 200" by (simp add: response_ok_def)
  have h3: "readEvents parseFrame failingReads = [text_event ''Hel''] @ error_event ''boom'' # [done_event]"
    by (simp add: failingReads_events)
  have h4: "list_all (\<lambda>x. \<not> is_terminal x) [text_event ''Hel'']" by simp
  note r = error_preserves_streamed[where net = "sampleNet failingReads" and env = None
        and input = "''hi''" and parse = parseFrame and clk = sampleClock and ?st0.0 = initialState,
        OF h1 h2 h3 h4]
  have a: "content (last (messages (fst
        (sendMessage parseFrame None (sampleNet failingReads) sampleClock ''hi'' initialState)))) = ''Hel''"
    using conjunct2[OF conjunct2[OF r]] by simp
  have "fst (sendMessage parseFrame None (sampleNet failingReads) sampleClock ''hi'' initialState) =
      (applyAll (assistantMessageId sampleClock) (startState sampleClock ''hi'' initialState) [text_event ''Hel''])
        \<lparr>error := Some ''boom'', isStreaming := False, abortControllerRef := False\<rparr>"
    by (rule conjunct1[OF r])
  then have b: "error (fst (sendMessage parseFrame None (sampleNet failingReads) sampleClock ''hi'' initialState)) =
       Some ''boom''"
    by simp
  show ?thesis using h2 h4 a b by (intro conjI)
qed

subsection \<open>The request\<close>

text \<open>
  Claim C7. Whatever the input, the state and the answer of the network,
  \<^verbatim>\<open>sendMessage\<close> issues exactly one request: a POST to the chat endpoint whose body
  is the object with \<^verbatim>\<open>message\<close> the input and \<^verbatim>\<open>use_context\<close> true.
\<close>

theorem one_post_with_context:
  "snd (sendMessage parse env net clk input st0) = [chatRequest env input]
   \<and> req_method (chatRequest env input) = ''POST''
   \<and> req_url (chatRequest env input) = API_BASE_URL env @ ''/api/chat/stream''
   \<and> req_body (chatRequest env input) =
       JObject [(''message'', JString input), (''use_context'', JBool True)]"
  by (simp add: sendMessage_def Let_def chatRequest_def)

subsection \<open>The list of tool calls\<close>
















subsection \<open>Chunk boundaries\<close>

lemma split_newline_nonempty: "split_newline s \<noteq> []"
  by (induction s) (auto split: list.splits)

lemma split_newline_append:
  "split_newline (xs @ newline # ys) = split_newline xs @ split_newline ys"
proof (induction xs)
  case Nil
  show ?case by simp
next
  case (Cons c xs)
  obtain l ls where l: "split_newline xs = l # ls"
    using split_newline_nonempty[of xs] by (cases "split_newline xs") auto
  show ?case using Cons.IH l by simp
qed

lemma lineEvent_empty: "lineEvent parse [] = None"
  by (simp add: lineEvent_def startsWith_def)

lemma chunkEvents_empty: "chunkEvents parse [] = []"
  by (simp add: chunkEvents_def List.map_filter_simps lineEvent_empty)

lemma map_filter_append: "List.map_filter f (xs @ ys) = List.map_filter f xs @ List.map_filter f ys"
  by (simp add: List.map_filter_def)

lemma chunkEvents_append:
  assumes "c = [] \<or> last c = newline"
  shows "chunkEvents parse (c @ d) = chunkEvents parse c @ chunkEvents parse d"
proof (cases "c = []")
  case True
  then show ?thesis by (simp add: chunkEvents_empty)
next
  case False
  then have "c = butlast c @ [newline]" using assms by (metis append_butlast_last_id)
  then obtain xs where c: "c = xs @ [newline]" by blast
  have 1: "split_newline (c @ d) = split_newline xs @ split_newline d"
    using split_newline_append[of xs d] by (simp add: c)
  have 2: "split_newline c = split_newline xs @ [[]]"
    using split_newline_append[of xs "[]"] by (simp add: c)
  show ?thesis
    by (simp add: chunkEvents_def 1 2 map_filter_append List.map_filter_simps lineEvent_empty)
qed

lemma chunkEvents_concat:
  "lineAligned cs \<Longrightarrow> concat (map (chunkEvents parse) cs) = chunkEvents parse (concat cs)"
proof (induction cs rule: lineAligned.induct)
  case 1
  show ?case by (simp add: chunkEvents_empty)
next
  case (2 c)
  show ?case by simp
next
  case (3 c d cs)
  then have al: "c = [] \<or> last c = newline" and rest: "lineAligned (d # cs)" by simp_all
  show ?case
    using 3 rest chunkEvents_append[OF al, of parse "concat (d # cs)"] by simp
qed

text \<open>
  Claim C2, as amended. Two partitions of one response text into chunks that are both
  aligned with the lines give the same final state and the same request.
\<close>

theorem aligned_partitions_agree:
  assumes "lineAligned cs1" and "lineAligned cs2" and "concat cs1 = concat cs2"
    and "net1 (chatRequest env input) = Response status (Some (map Chunk cs1))"
    and "net2 (chatRequest env input) = Response status (Some (map Chunk cs2))"
  shows "sendMessage parse env net1 clk input st0 = sendMessage parse env net2 clk input st0"
proof -
  have "readLoop parse (assistantMessageId clk) (startState clk input st0) (map Chunk cs1) =
        readLoop parse (assistantMessageId clk) (startState clk input st0) (map Chunk cs2)"
    using assms(1,2,3) by (simp add: readLoop_chunks chunkEvents_concat)
  then show ?thesis
    using assms(4,5) by (simp add: sendMessage_def Let_def)
qed

text \<open>
  Claim C2 as stated fails: the frame of a line that is cut by a chunk boundary is lost.
  The two partitions below have the same text; read whole, the frame appends its text,
  and cut inside the frame, neither piece is a line that starts with the prefix and
  parses.
\<close>

theorem chunk_boundary_counterexample:
  "concat wholeFrame = concat cutFrame
   \<and> content (last (messages (fst
       (sendMessage parseFrame None (sampleNet (map Chunk wholeFrame)) sampleClock ''q'' initialState)))) = ''hi''
   \<and> content (last (messages (fst
       (sendMessage parseFrame None (sampleNet (map Chunk cutFrame)) sampleClock ''q'' initialState)))) = []
   \<and> fst (sendMessage parseFrame None (sampleNet (map Chunk wholeFrame)) sampleClock ''q'' initialState) \<noteq>
     fst (sendMessage parseFrame None (sampleNet (map Chunk cutFrame)) sampleClock ''q'' initialState)"
  by code_simp

text \<open>The amended claim at two aligned partitions of three frames.\<close>

theorem aligned_partitions_agree_witness:
  "lineAligned wholeLines \<and> lineAligned cutLines \<and> concat wholeLines = concat cutLines
   \<and> sendMessage parseFrame None (sampleNet (map Chunk wholeLines)) sampleClock ''q'' initialState =
       sendMessage parseFrame None (sampleNet (map Chunk cutLines)) sampleClock ''q'' initialState"
proof -
  have a1: "lineAligned wholeLines" by (simp add: wholeLines_def)
  have a2: "lineAligned cutLines" by (simp add: cutLines_def newline_def)
  have c: "concat wholeLines = concat cutLines" by (simp add: wholeLines_def cutLines_def)
  have n1: "sampleNet (map Chunk wholeLines) (chatRequest None ''q'') =
      Response 200 (Some (map Chunk wholeLines))"
    by (simp add: sampleNet_def)
  have n2: "sampleNet (map Chunk cutLines) (chatRequest None ''q'') =
      Response 200 (Some (map Chunk cutLines))"
    by (simp add: sampleNet_def)
  show ?thesis
    using a1 a2 c aligned_partitions_agree[OF a1 a2 c,
        where ?net1.0 = "sampleNet (map Chunk wholeLines)"
        and ?net2.0 = "sampleNet (map Chunk cutLines)"
        and env = None and input = "''q''" and status = 200 and parse = parseFrame
        and clk = sampleClock and ?st0.0 = initialState, OF n1 n2]
    by (intro conjI)
qed

section \<open>Properties of the rendering and of the handlers\<close>

subsection \<open>Citation markers\<close>






lemma split_citations_nonempty: "split_citations s \<noteq> []"
  by (induction s rule: split_citations.induct) (auto split: option.splits list.splits)




















subsection \<open>The page of the viewer\<close>



subsection \<open>Dispatch of components\<close>

text \<open>
  The three registered names are dispatched to their components, and a name that is
  neither registered nor a property of \<^verbatim>\<open>Object.prototype\<close> gets the error placeholder.
\<close>

lemma dispatch_registered:
  "ComponentRenderer ''chart'' props = Element (Registered Chart) props"
  "ComponentRenderer ''table'' props = Element (Registered DataTable) props"
  "ComponentRenderer ''card'' props = Element (Registered InfoCard) props"
  by (simp_all add: ComponentRenderer_def registryLookup_def componentRegistry_def)

lemma dispatch_unknown:
  assumes "nm \<notin> {''chart'', ''table'', ''card''}" "nm \<notin> set Object_prototype_keys"
  shows "ComponentRenderer nm props = ErrorPlaceholder nm"
  using assms by (simp add: ComponentRenderer_def registryLookup_def componentRegistry_def)

text \<open>
  Claim C6 says that every name other than \<^verbatim>\<open>chart\<close>, \<^verbatim>\<open>table\<close> and \<^verbatim>\<open>card\<close> gets
  the error placeholder and is dispatched to no component. At the name
  \<^verbatim>\<open>constructor\<close> the lookup in the registry finds the inherited property, the test
  for an unknown name does not fire, and the renderer builds an element from the
  inherited value with the properties of the event.
\<close>

theorem inherited_name_dispatched:
  "ComponentRenderer ''constructor'' props = Element (Inherited ''constructor'') props
   \<and> ComponentRenderer ''constructor'' props \<noteq> ErrorPlaceholder ''constructor''
   \<and> ''constructor'' \<notin> {''chart'', ''table'', ''card''}"
  by (simp add: ComponentRenderer_def registryLookup_def componentRegistry_def Object_prototype_keys_def)

subsection \<open>Validation before an upload\<close>

lemma handleFileUpload_valid:
  assumes "endsWith (toLowerCase (file_name f)) ''.pdf''" "file_size f \<le> 10 * 1024 * 1024"
  shows "uploadCalls (handleFileUpload up f st) = uploadCalls st @ [f]"
  using assms by (cases "up f") (simp_all add: handleFileUpload_def Let_def)

text \<open>
  Claim C10. For a file whose name, in lower case, does not end with \<^verbatim>\<open>.pdf\<close>, or
  whose size is above 10 * 1024 * 1024 bytes, the handler calls \<^verbatim>\<open>uploadDocument\<close>
  never, leaves the upload progress as it was and starts no timer: all it does is show
  one of the two alerts.
\<close>

theorem invalid_file_not_uploaded:
  assumes "\<not> endsWith (toLowerCase (file_name f)) ''.pdf'' \<or> 10 * 1024 * 1024 < file_size f"
  shows "uploadCalls (handleFileUpload up f st) = uploadCalls st
         \<and> uploadProgress (handleFileUpload up f st) = uploadProgress st
         \<and> timers (handleFileUpload up f st) = timers st
         \<and> (handleFileUpload up f st = st\<lparr>alerts := alerts st @ [''Only PDF files are allowed'']\<rparr>
            \<or> handleFileUpload up f st = st\<lparr>alerts := alerts st @ [''File size must be less than 10MB'']\<rparr>)"
  using assms by (auto simp: handleFileUpload_def)

text \<open>The theorem at a file with another extension and at a PDF one byte above the limit.\<close>

theorem invalid_file_not_uploaded_witness:
  "\<not> endsWith (toLowerCase (file_name \<lparr>file_name = ''notes.pdf.txt'', file_size = 10\<rparr>)) ''.pdf''
   \<and> uploadCalls (handleFileUpload (\<lambda>f. Uploaded) \<lparr>file_name = ''notes.pdf.txt'', file_size = 10\<rparr> emptyUploads) = []
   \<and> uploadProgress (handleFileUpload (\<lambda>f. Uploaded) \<lparr>file_name = ''notes.pdf.txt'', file_size = 10\<rparr> emptyUploads) = None
   \<and> 10 * 1024 * 1024 < file_size \<lparr>file_name = ''Big.PDF'', file_size = 10485761\<rparr>
   \<and> uploadCalls (handleFileUpload (\<lambda>f. Uploaded) \<lparr>file_name = ''Big.PDF'', file_size = 10485761\<rparr> emptyUploads) = []
   \<and> uploadProgress (handleFileUpload (\<lambda>f. Uploaded) \<lparr>file_name = ''Big.PDF'', file_size = 10485761\<rparr> emptyUploads) = None"
proof -
  have h1: "\<not> endsWith (toLowerCase (file_name \<lparr>file_name = ''notes.pdf.txt'', file_size = 10\<rparr>)) ''.pdf''"
    by code_simp
  have h2: "10 * 1024 * 1024 < file_size \<lparr>file_name = ''Big.PDF'', file_size = 10485761\<rparr>"
    by simp
  note r1 = invalid_file_not_uploaded[OF disjI1[OF h1], of "\<lambda>f. Uploaded" emptyUploads]
  note r2 = invalid_file_not_uploaded[OF disjI2[OF h2], of "\<lambda>f. Uploaded" emptyUploads]
  have e: "uploadCalls emptyUploads = []" "uploadProgress emptyUploads = None"
    by (simp_all add: emptyUploads_def)
  show ?thesis
    using h1 h2 conjunct1[OF r1] conjunct1[OF conjunct2[OF r1]] conjunct1[OF r2]
      conjunct1[OF conjunct2[OF r2]]
    unfolding e by (intro conjI)
qed

end
